theory Spec2Isabelle
  imports Complex_Main
begin

section \<open>The training processor of train.py\<close>

text \<open>
  The development embeds the orchestration code of \<^verbatim>\<open>Processor\<close>: the learning-rate
  schedule, the weight loading with its fallback, the timers of the training epoch, the
  score record of an evaluation pass and the epoch loop of \<^verbatim>\<open>start\<close>.
  Python floats are read as real numbers: the properties below are about the algebra of
  the formulas, not about rounding. The tensor computations (forward, backward, the
  optimizer step) are opaque to the processor and do not appear.
\<close>

datatype error = ValueError | ZeroDivisionError | KeyError

subsection \<open>Configuration\<close>

text \<open>The fields of \<^verbatim>\<open>self.arg\<close> that the modelled methods read.\<close>

record arg =
  optimizer :: string
  base_lr :: real
  step :: "int list"
  phase :: string
  start_epoch :: int
  num_epoch :: int
  save_interval :: int
  eval_interval :: int
  log_interval :: int
  work_dir :: string
  ignore_weights :: "string list"

subsection \<open>Learning rate\<close>

text \<open>
  \<^verbatim>\<open>adjust_learning_rate\<close>: \<^verbatim>\<open>np.sum(epoch >= np.array(self.arg.step))\<close> counts the
  entries of the step list that the epoch has reached; every parameter group of the
  optimizer receives the new rate, which is also returned. Another optimizer name raises
  \<^verbatim>\<open>ValueError\<close>.
\<close>

definition adjust_learning_rate :: "arg \<Rightarrow> int \<Rightarrow> real list \<Rightarrow> error + (real \<times> real list)" where
  "adjust_learning_rate a epoch param_groups =
     (if optimizer a = ''SGD'' \<or> optimizer a = ''Adam'' then
        let lr = base_lr a * (1 / 10) ^ length (filter (\<lambda>s. epoch \<ge> s) (step a))
        in Inr (lr, map (\<lambda>_. lr) param_groups)
      else Inl ValueError)"

subsection \<open>Parameter mappings\<close>

text \<open>
  A Python dictionary from parameter names to tensors is an association list that is read
  with \<^const>\<open>map_of\<close>; the tensors are an abstract type \<open>'v\<close>. \<^verbatim>\<open>d.pop(k, None)\<close>
  returns the stored value or \<^verbatim>\<open>None\<close> and removes the key; \<^verbatim>\<open>d[k] = v\<close> replaces the
  value in place or appends the key; \<^verbatim>\<open>d.update(other)\<close> assigns \<^verbatim>\<open>d[k] = other[k]\<close>
  for every key of \<^verbatim>\<open>other\<close>; \<^verbatim>\<open>dict(pairs)\<close> assigns the pairs in order.
\<close>

type_synonym 'v dict = "(string \<times> 'v) list"

definition dict_keys :: "'v dict \<Rightarrow> string list" where
  "dict_keys d = map fst d"

definition dict_pop :: "string \<Rightarrow> 'v dict \<Rightarrow> 'v option \<times> 'v dict" where
  "dict_pop k d = (map_of d k, filter (\<lambda>kv. fst kv \<noteq> k) d)"

fun dict_set :: "string \<Rightarrow> 'v \<Rightarrow> 'v dict \<Rightarrow> 'v dict" where
  "dict_set k v [] = [(k, v)]"
| "dict_set k v (p # ps) = (if fst p = k then (k, v) # ps else p # dict_set k v ps)"

definition dict_update :: "'v dict \<Rightarrow> 'v dict \<Rightarrow> 'v dict" where
  "dict_update d other =
     fold (\<lambda>k acc. case map_of other k of Some v \<Rightarrow> dict_set k v acc | None \<Rightarrow> acc)
       (dict_keys other) d"

definition dict :: "(string \<times> 'v) list \<Rightarrow> 'v dict" where
  "dict pairs = fold (\<lambda>kv acc. dict_set (fst kv) (snd kv) acc) pairs []"

subsection \<open>Loading weights\<close>

text \<open>
  The loop over \<^verbatim>\<open>self.arg.ignore_weights\<close>: every listed name is popped from the loaded
  weights and one line is printed for it. The values of a snapshot are tensors, never
  \<^verbatim>\<open>None\<close>, so \<^verbatim>\<open>weights.pop(w, None) is not None\<close> tests whether the name was there.
  The result is the remaining weights and the printed lines.
\<close>

fun remove_weights :: "string list \<Rightarrow> 'v dict \<Rightarrow> 'v dict \<times> string list" where
  "remove_weights [] weights = (weights, [])"
| "remove_weights (w # ws) weights =
     (let (popped, weights') = dict_pop w weights;
          line = (if popped \<noteq> None then ''Sucessfully Remove Weights: '' @ w @ ''.''
                  else ''Can Not Remove Weights: '' @ w @ ''.'');
          (weights'', lines) = remove_weights ws weights'
      in (weights'', line # lines))"

text \<open>
  Modelled from the spec: the model layer's \<^verbatim>\<open>load_state_dict\<close> (the specification's
  \<^verbatim>\<open>load_parameters\<close>) belongs to the tensor library and is not in the repository.
  The specification has the model layer ignore names that the model does not have; the
  fallback of \<^verbatim>\<open>load_model\<close> is entered when the call raises, which it does when
  the mapping lacks one of the model's names. A mapping that is accepted overwrites the
  model's parameters by name. The first argument is the mapping loaded, the second the
  model's own parameters.
\<close>

definition load_state_dict :: "'v dict \<Rightarrow> 'v dict \<Rightarrow> error + 'v dict" where
  "load_state_dict state_dict own =
     (if \<forall>k \<in> set (dict_keys own). k \<in> set (dict_keys state_dict) then
        Inr (map (\<lambda>kv. (fst kv, case map_of state_dict (fst kv) of Some v \<Rightarrow> v | None \<Rightarrow> snd kv)) own)
      else Inl KeyError)"

text \<open>
  The part of \<^verbatim>\<open>load_model\<close> under \<^verbatim>\<open>if self.arg.weights\<close>, after the file has been
  unpickled into \<open>loaded\<close>. The model layer is the parameter \<open>lsd\<close>; the model is
  its parameter mapping, which is also what \<^verbatim>\<open>state_dict()\<close> returns. The bare
  \<^verbatim>\<open>except\<close> catches whatever the first call raises; an exception of the second call
  leaves the method. Python iterates the set difference in an order of its own; here the
  missing names are listed in the order of the model's keys. The result is the printed
  lines and the outcome.
\<close>

definition load_model ::
  "('v dict \<Rightarrow> 'v dict \<Rightarrow> error + 'v dict) \<Rightarrow> arg \<Rightarrow> string \<Rightarrow> 'v dict \<Rightarrow> 'v dict
     \<Rightarrow> string list \<times> (error + 'v dict)" where
  "load_model lsd a path loaded own =
     (let (weights, removal) = remove_weights (ignore_weights a) loaded;
          printed = (''Load weights from '' @ path @ ''.'') # removal
      in case lsd weights own of
           Inr own' \<Rightarrow> (printed, Inr own')
         | Inl _ \<Rightarrow>
             (let state = own;
                  diff = remdups (filter (\<lambda>k. k \<notin> set (dict_keys weights)) (dict_keys state));
                  printed' = printed @ ''Can not find these weights:'' # map (\<lambda>d. ''  '' @ d) diff;
                  state' = dict_update state weights
              in (printed', lsd state' own)))"

subsection \<open>Timers\<close>

text \<open>
  \<open>clock n\<close> is the value of the \<open>n\<close>-th call of \<^verbatim>\<open>time.time()\<close> that the two timing
  methods make; \<open>ticks\<close> counts the calls made so far. \<^verbatim>\<open>split_time\<close> reads the clock
  for the difference and once more inside \<^verbatim>\<open>record_time\<close>.
\<close>

record stopwatch =
  cur_time :: real
  ticks :: nat

definition record_time :: "(nat \<Rightarrow> real) \<Rightarrow> stopwatch \<Rightarrow> real \<times> stopwatch" where
  "record_time clock s = (clock (ticks s), \<lparr>cur_time = clock (ticks s), ticks = Suc (ticks s)\<rparr>)"

definition split_time :: "(nat \<Rightarrow> real) \<Rightarrow> stopwatch \<Rightarrow> real \<times> stopwatch" where
  "split_time clock s =
     (let split_time = clock (ticks s) - cur_time s;
          s' = snd (record_time clock (s\<lparr>ticks := Suc (ticks s)\<rparr>))
      in (split_time, s'))"

record timer =
  dataloader :: real
  model :: real
  statistics :: real

text \<open>
  The batch loop of \<^verbatim>\<open>train\<close>, as far as the timers go; the second argument is the
  number of batches still to come. \<^verbatim>\<open>batch_idx % self.arg.log_interval\<close> raises when
  the interval is zero, after the first two splits of the batch.
\<close>

fun train_batches :: "(nat \<Rightarrow> real) \<Rightarrow> arg \<Rightarrow> nat \<Rightarrow> stopwatch \<times> timer \<Rightarrow> error + stopwatch \<times> timer" where
  "train_batches clock a 0 st = Inr st"
| "train_batches clock a (Suc n) st =
     (let (d1, s1) = split_time clock (fst st);
          t1 = (snd st)\<lparr>dataloader := dataloader (snd st) + d1\<rparr>;
          (d2, s2) = split_time clock s1;
          t2 = t1\<lparr>model := model t1 + d2\<rparr>
      in if log_interval a = 0 then Inl ZeroDivisionError
         else let (d3, s3) = split_time clock s2;
                  t3 = t2\<lparr>statistics := statistics t2 + d3\<rparr>
              in train_batches clock a n (s3, t3))"

text \<open>
  Python 2's \<^verbatim>\<open>round\<close> followed by \<^verbatim>\<open>int\<close>: to the nearest integer, halves away from
  zero.
\<close>

definition py_round :: "real \<Rightarrow> int" where
  "py_round x = (if 0 \<le> x then \<lfloor>x + 1 / 2\<rfloor> else \<lceil>x - 1 / 2\<rceil>)"

text \<open>
  The dictionary \<^verbatim>\<open>proportion\<close>, as numbers: each bucket's share of
  \<^verbatim>\<open>sum(timer.values())\<close> in percent. Dividing by a zero sum raises.
\<close>

definition proportion :: "timer \<Rightarrow> error + (string \<times> int) list" where
  "proportion t =
     (let total = dataloader t + model t + statistics t
      in if total = 0 then Inl ZeroDivisionError
         else Inr [(''dataloader'', py_round (dataloader t * 100 / total)),
                   (''model'', py_round (model t * 100 / total)),
                   (''statistics'', py_round (statistics t * 100 / total))])"

text \<open>
  The timers of one call of \<^verbatim>\<open>train\<close> over \<open>n\<close> batches: the stopwatch is started,
  every bucket is seeded with \<open>0.001\<close>, the batches run.
\<close>

definition train_timer :: "(nat \<Rightarrow> real) \<Rightarrow> arg \<Rightarrow> nat \<Rightarrow> stopwatch \<Rightarrow> error + timer" where
  "train_timer clock a n s0 =
     (let s = snd (record_time clock s0);
          timer = \<lparr>dataloader = 1 / 1000, model = 1 / 1000, statistics = 1 / 1000\<rparr>
      in case train_batches clock a n (s, timer) of
           Inl e \<Rightarrow> Inl e
         | Inr st \<Rightarrow> Inr (snd st))"

definition train_proportion :: "(nat \<Rightarrow> real) \<Rightarrow> arg \<Rightarrow> nat \<Rightarrow> stopwatch \<Rightarrow> error + (string \<times> int) list" where
  "train_proportion clock a n s0 =
     (case train_timer clock a n s0 of Inl e \<Rightarrow> Inl e | Inr t \<Rightarrow> proportion t)"


text \<open>
  The stopwatch holds a reading that the clock has given: the invariant of the timing
  methods once \<^verbatim>\<open>record_time\<close> has run.
\<close>

definition ticking :: "(nat \<Rightarrow> real) \<Rightarrow> stopwatch \<Rightarrow> bool" where
  "ticking clock s \<longleftrightarrow> (\<exists>j < ticks s. cur_time s = clock j)"

subsection \<open>Score record\<close>

text \<open>
  \<^verbatim>\<open>np.concatenate\<close> joins the score arrays of the batches along the first axis, so the
  result is the sequence of all score rows; it raises \<^verbatim>\<open>ValueError\<close> on an empty list
  of arrays. \<^verbatim>\<open>zip\<close> stops at the shorter sequence.
\<close>

definition concatenate :: "'r list list \<Rightarrow> error + 'r list" where
  "concatenate arrays = (if arrays = [] then Inl ValueError else Inr (concat arrays))"

definition score_dict :: "string list \<Rightarrow> 'r list list \<Rightarrow> error + 'r dict" where
  "score_dict sample_name score_frag =
     (case concatenate score_frag of
        Inl e \<Rightarrow> Inl e
      | Inr score \<Rightarrow> Inr (dict (zip sample_name score)))"

subsection \<open>Files written\<close>

text \<open>
  The files that the processor writes below the working directory, named by the numbers
  that the format strings take: \<^verbatim>\<open>{}/epoch{}_model.pkl\<close> and
  \<^verbatim>\<open>{}/epoch{}_{}_score.pkl\<close>.
\<close>

datatype path = Model_pkl string int | Score_pkl string int string

text \<open>
  A file system maps paths to the chunks written so far. Opening with mode \<^verbatim>\<open>'w'\<close>
  creates the file or truncates it, a write appends to it, renaming moves a file over the
  target. \<^verbatim>\<open>pickle.dump\<close> writes the pickled object through the file in several
  chunks, which are the parameter \<open>chunks\<close>.
\<close>

datatype 'c fs_op = Open_w path | Write path 'c | Close path | Rename path path

fun apply_op :: "'c fs_op \<Rightarrow> (path \<rightharpoonup> 'c list) \<Rightarrow> (path \<rightharpoonup> 'c list)" where
  "apply_op (Open_w p) fs = fs(p \<mapsto> [])"
| "apply_op (Write p c) fs = (case fs p of Some cs \<Rightarrow> fs(p \<mapsto> cs @ [c]) | None \<Rightarrow> fs)"
| "apply_op (Close p) fs = fs"
| "apply_op (Rename p q) fs = (case fs p of Some cs \<Rightarrow> (fs(p := None))(q \<mapsto> cs) | None \<Rightarrow> fs)"

definition run_ops :: "'c fs_op list \<Rightarrow> (path \<rightharpoonup> 'c list) \<Rightarrow> (path \<rightharpoonup> 'c list)" where
  "run_ops ops fs = fold apply_op ops fs"

text \<open>
  The end of \<^verbatim>\<open>train\<close> when \<^verbatim>\<open>save_model\<close> holds: the target path itself is opened
  for writing and the state dictionary is dumped into it.
\<close>

definition model_path :: "arg \<Rightarrow> int \<Rightarrow> path" where
  "model_path a epoch = Model_pkl (work_dir a) (epoch + 1)"

definition save_model_ops :: "arg \<Rightarrow> int \<Rightarrow> 'c list \<Rightarrow> 'c fs_op list" where
  "save_model_ops a epoch chunks =
     Open_w (model_path a epoch) # map (Write (model_path a epoch)) chunks @ [Close (model_path a epoch)]"

subsection \<open>The epoch loop\<close>

text \<open>
  What the processor meets while it runs: the readings of the clock, the number of
  batches that the training loader and the test loader yield, the sample names of a
  loader's dataset and the score rows that the model puts out for a batch of a loader at
  an epoch. \<^verbatim>\<open>load_data\<close> builds \<^verbatim>\<open>self.data_loader\<close> with the two keys
  \<^verbatim>\<open>'train'\<close> and \<^verbatim>\<open>'test'\<close>; indexing it with another name raises \<^verbatim>\<open>KeyError\<close>.
\<close>

record 'r world =
  readings :: "nat \<Rightarrow> real"
  train_len :: nat
  test_len :: nat
  names_of :: "string \<Rightarrow> string list"
  rows_of :: "int \<Rightarrow> string \<Rightarrow> nat \<Rightarrow> 'r list"

definition data_loader :: "'r world \<Rightarrow> string \<Rightarrow> error + nat" where
  "data_loader w loader =
     (if loader = ''train'' then Inr (train_len w)
      else if loader = ''test'' then Inr (test_len w)
      else Inl KeyError)"

text \<open>
  What a run does is recorded as the sequence of its steps: the batch loop of a training
  epoch is entered, a checkpoint file is written by \<^verbatim>\<open>train\<close>, the batches of a loader
  are evaluated, a score file is written by \<^verbatim>\<open>eval\<close>. The state that the processor
  carries from one call to the next is its stopwatch and the rates of the optimizer's
  parameter groups.
\<close>

datatype event = Train_step int | Checkpoint_written path | Eval_pass int string | Score_written path

text \<open>
  \<^verbatim>\<open>train\<close>: the rate is set, the stopwatch is started, the buckets are seeded, the
  batches run, the shares are computed and, when \<^verbatim>\<open>save_model\<close> holds, the checkpoint
  is written. An exception of the rate, of the batch loop or of the division of the shares
  leaves the method before the checkpoint. The forward and backward passes are opaque
  and are taken to return.
\<close>

definition train ::
  "'r world \<Rightarrow> arg \<Rightarrow> int \<Rightarrow> bool \<Rightarrow> stopwatch \<times> real list
     \<Rightarrow> event list \<times> (error + stopwatch \<times> real list)" where
  "train w a epoch save_model st =
     (case adjust_learning_rate a epoch (snd st) of
        Inl e \<Rightarrow> ([], Inl e)
      | Inr lr_groups \<Rightarrow>
          (let s = snd (record_time (readings w) (fst st));
               timer = \<lparr>dataloader = 1 / 1000, model = 1 / 1000, statistics = 1 / 1000\<rparr>
           in case train_batches (readings w) a (train_len w) (s, timer) of
                Inl e \<Rightarrow> ([Train_step epoch], Inl e)
              | Inr st' \<Rightarrow>
                  (case proportion (snd st') of
                     Inl e \<Rightarrow> ([Train_step epoch], Inl e)
                   | Inr shares \<Rightarrow>
                       (Train_step epoch #
                          (if save_model then [Checkpoint_written (model_path a epoch)] else []),
                        Inr (fst st', snd lr_groups)))))"

text \<open>
  \<^verbatim>\<open>eval\<close>: for every loader name in turn, the loader is looked up, its batches are
  scored, the score record is built from the sample names and the score rows, and, when
  \<^verbatim>\<open>save_score\<close> holds, the score file is written. An exception ends the method: the
  lookup of an unknown name, or \<^verbatim>\<open>np.concatenate\<close> on a loader without a batch. The
  model's forward pass and the feeder's \<^verbatim>\<open>top_k\<close> are opaque and are taken to return.
\<close>

fun eval :: "'r world \<Rightarrow> arg \<Rightarrow> int \<Rightarrow> bool \<Rightarrow> string list \<Rightarrow> event list \<times> error option" where
  "eval w a epoch save_score [] = ([], None)"
| "eval w a epoch save_score (loader # rest) =
     (case data_loader w loader of
        Inl e \<Rightarrow> ([], Some e)
      | Inr n \<Rightarrow>
          (case score_dict (names_of w loader) (map (rows_of w epoch loader) [0 ..< n]) of
             Inl e \<Rightarrow> ([Eval_pass epoch loader], Some e)
           | Inr scores \<Rightarrow>
               (let steps = Eval_pass epoch loader #
                      (if save_score then [Score_written (Score_pkl (work_dir a) (epoch + 1) loader)] else []);
                    (later, err) = eval w a epoch save_score rest
                in (steps @ later, err))))"

text \<open>
  The loop of \<^verbatim>\<open>start\<close> over the epochs that are left. Python's \<^verbatim>\<open>%\<close> raises on a
  zero divisor, before \<^verbatim>\<open>train\<close> is called for that epoch; for other divisors it
  agrees with \<open>mod\<close> on the integers. An exception of \<^verbatim>\<open>train\<close> or \<^verbatim>\<open>eval\<close> ends
  the run. The result is the steps made and the exception, if one ended the run.
\<close>

fun epochs ::
  "'r world \<Rightarrow> arg \<Rightarrow> int list \<Rightarrow> stopwatch \<times> real list \<Rightarrow> event list \<times> error option" where
  "epochs w a [] st = ([], None)"
| "epochs w a (epoch # rest) st =
     (if save_interval a = 0 then ([], Some ZeroDivisionError)
      else let save_model = ((epoch + 1) mod save_interval a = 0 \<or> epoch + 1 = num_epoch a)
      in if eval_interval a = 0 then ([], Some ZeroDivisionError)
      else let eval_model = ((epoch + 1) mod eval_interval a = 0 \<or> epoch + 1 = num_epoch a)
      in case train w a epoch save_model st of
           (trained, Inl e) \<Rightarrow> (trained, Some e)
         | (trained, Inr st') \<Rightarrow>
             (case (if eval_model then eval w a epoch True [''test''] else ([], None)) of
                (evaluated, Some e) \<Rightarrow> (trained @ evaluated, Some e)
              | (evaluated, None) \<Rightarrow>
                  (let (later, err) = epochs w a rest st'
                   in (trained @ evaluated @ later, err))))"

definition start :: "'r world \<Rightarrow> arg \<Rightarrow> stopwatch \<times> real list \<Rightarrow> event list \<times> error option" where
  "start w a st =
     (if phase a = ''train'' then epochs w a [start_epoch a ..  num_epoch a - 1] st
      else if phase a = ''test'' then eval w a (start_epoch a) True [''test'']
      else ([], None))"


subsection \<open>Default configuration\<close>

text \<open>
  The defaults of the argument parser for the fields above. The working directory and
  the weights have no usable default; the examples below run in \<open>work\<close>.
\<close>

definition default_arg :: arg where
  "default_arg =
     \<lparr>optimizer = ''SGD'', base_lr = 1 / 100, step = [20, 40, 60], phase = ''train'',
      start_epoch = 0, num_epoch = 80, save_interval = 10, eval_interval = 5,
      log_interval = 100, work_dir = ''work'', ignore_weights = []\<rparr>"

text \<open>
  A world for the examples: the clock advances by one second at every reading, the
  training loader yields two batches and the test loader one, with one sample each.
\<close>

definition steady_world :: "nat world" where
  "steady_world =
     \<lparr>readings = real, train_len = 2, test_len = 1,
      names_of = (\<lambda>_. [''s0'']), rows_of = (\<lambda>_ _ _. [0])\<rparr>"

text \<open>
  The schedule in the words of the specification, for comparison with the code: the base
  rate times \<open>0.1\<close> to the number of configured step boundaries at most \<open>e\<close>.
\<close>

definition lr_spec :: "real \<Rightarrow> int list \<Rightarrow> int \<Rightarrow> real" where
  "lr_spec base steps e = base * (1 / 10) ^ card {i. i < length steps \<and> steps ! i \<le> e}"

section \<open>Properties\<close>

subsection \<open>Learning rate\<close>

lemma count_reached_mono:
  "e \<le> e' \<Longrightarrow> length (filter (\<lambda>s. e \<ge> s) xs) \<le> length (filter (\<lambda>s. e' \<ge> s) (xs :: int list))"
  by (induction xs) auto

lemma count_reached_card:
  "length (filter (\<lambda>s. e \<ge> s) xs) = card {i. i < length xs \<and> xs ! i \<le> (e::int)}"
  by (simp add: length_filter_conv_card)

lemma decay_antimono:
  fixes b :: real
  assumes "0 \<le> b" "m \<le> n"
  shows "b * (1 / 10) ^ n \<le> b * (1 / 10) ^ m"
proof -
  have "((1::real) / 10) ^ n \<le> (1 / 10) ^ m"
    using assms(2) by (intro power_decreasing) simp_all
  then show ?thesis
    using assms(1) by (rule mult_left_mono)
qed

text \<open>
  C1 (as amended). With a supported optimizer the rate set for epoch \<open>e\<close> is
  \<open>base_lr * 0.1 ^ c\<close>, where \<open>c\<close> counts the positions of the step list whose boundary is
  at most \<open>e\<close>; it depends on the configuration through \<open>base_lr\<close> and \<open>step\<close> only; and
  when \<open>base_lr\<close> is not negative the rate of a later epoch is at most the rate of an
  earlier one.
\<close>

theorem adjust_learning_rate_schedule:
  assumes "optimizer a = ''SGD'' \<or> optimizer a = ''Adam''"
  shows "adjust_learning_rate a e g = Inr (lr_spec (base_lr a) (step a) e,
             map (\<lambda>_. lr_spec (base_lr a) (step a) e) g)
         \<and> (\<forall>b. (optimizer b = ''SGD'' \<or> optimizer b = ''Adam'')
                  \<and> base_lr b = base_lr a \<and> step b = step a
                \<longrightarrow> adjust_learning_rate b e g = adjust_learning_rate a e g)
         \<and> (0 \<le> base_lr a \<and> e \<le> e' \<longrightarrow>
              (\<exists>l l' gs gs'. adjust_learning_rate a e g = Inr (l, gs)
                 \<and> adjust_learning_rate a e' g = Inr (l', gs') \<and> l' \<le> l))"
proof -
  let ?c = "\<lambda>x. length (filter (\<lambda>s. x \<ge> s) (step a))"
  let ?l = "\<lambda>x. base_lr a * (1 / 10) ^ ?c x"
  have run: "adjust_learning_rate a x g = Inr (?l x, map (\<lambda>_. ?l x) g)" for x
    using assms by (simp add: adjust_learning_rate_def Let_def)
  have formula: "?l e = lr_spec (base_lr a) (step a) e"
    by (simp only: count_reached_card lr_spec_def)
  have pure: "adjust_learning_rate b e g = adjust_learning_rate a e g"
    if "(optimizer b = ''SGD'' \<or> optimizer b = ''Adam'') \<and> base_lr b = base_lr a \<and> step b = step a"
    for b
    using that assms by (simp add: adjust_learning_rate_def Let_def)
  have mono: "?l e' \<le> ?l e" if "0 \<le> base_lr a \<and> e \<le> e'"
    using that by (intro decay_antimono count_reached_mono) simp_all
  have "adjust_learning_rate a e g = Inr (lr_spec (base_lr a) (step a) e,
             map (\<lambda>_. lr_spec (base_lr a) (step a) e) g)"
    using run [of e] formula by simp
  moreover have "\<exists>l l' gs gs'. adjust_learning_rate a e g = Inr (l, gs)
                 \<and> adjust_learning_rate a e' g = Inr (l', gs') \<and> l' \<le> l"
    if "0 \<le> base_lr a \<and> e \<le> e'"
    using run [of e] run [of e'] mono [OF that] by blast
  ultimately show ?thesis
    using pure by blast
qed

theorem adjust_learning_rate_schedule_witness:
  "(optimizer \<lparr>optimizer = ''SGD'', base_lr = 1, step = [1, 2], phase = ''train'',
        start_epoch = 0, num_epoch = 3, save_interval = 1, eval_interval = 1,
        log_interval = 1, work_dir = ''w'', ignore_weights = []\<rparr> = ''SGD'')
   \<and> (0::real) \<le> 1 \<and> (1::int) \<le> 2
   \<and> adjust_learning_rate
       \<lparr>optimizer = ''SGD'', base_lr = 1, step = [1, 2], phase = ''train'', start_epoch = 0,
        num_epoch = 3, save_interval = 1, eval_interval = 1, log_interval = 1, work_dir = ''w'', ignore_weights = []\<rparr> 1 [5]
       = Inr (lr_spec 1 [1, 2] 1, [lr_spec 1 [1, 2] 1])"
  using adjust_learning_rate_schedule
    [of "\<lparr>optimizer = ''SGD'', base_lr = 1, step = [1, 2], phase = ''train'', start_epoch = 0,
        num_epoch = 3, save_interval = 1, eval_interval = 1, log_interval = 1, work_dir = ''w'', ignore_weights = []\<rparr>" 1 "[5]" 2]
  by simp

theorem adjust_learning_rate_negative_base_counterexample:
  "adjust_learning_rate
       \<lparr>optimizer = ''SGD'', base_lr = - 1, step = [1], phase = ''train'', start_epoch = 0,
        num_epoch = 2, save_interval = 1, eval_interval = 1, log_interval = 1, work_dir = ''w'', ignore_weights = []\<rparr> 0 [] = Inr (- 1, [])
   \<and> adjust_learning_rate
       \<lparr>optimizer = ''SGD'', base_lr = - 1, step = [1], phase = ''train'', start_epoch = 0,
        num_epoch = 2, save_interval = 1, eval_interval = 1, log_interval = 1, work_dir = ''w'', ignore_weights = []\<rparr> 1 [] = Inr (- (1 / 10), [])
   \<and> \<not> (- (1 / 10) \<le> (- 1 :: real))"
  by (simp add: adjust_learning_rate_def)

subsection \<open>Counting in lists\<close>

lemma count_distinct: "distinct xs \<Longrightarrow> x \<in> set xs \<Longrightarrow> count_list xs x = 1"
  by (induction xs) auto


subsection \<open>Timers\<close>

lemma py_round_near: "\<bar>of_int (py_round x) - x\<bar> \<le> 1 / 2"
proof (cases "0 \<le> x")
  case True
  have "of_int \<lfloor>x + 1 / 2\<rfloor> \<le> x + 1 / 2" "x + 1 / 2 < of_int \<lfloor>x + 1 / 2\<rfloor> + 1"
    by linarith+
  then have "\<bar>of_int \<lfloor>x + 1 / 2\<rfloor> - x\<bar> \<le> 1 / 2"
    by linarith
  with True show ?thesis by (simp only: py_round_def if_True)
next
  case False
  have "x - 1 / 2 \<le> of_int \<lceil>x - 1 / 2\<rceil>" "of_int \<lceil>x - 1 / 2\<rceil> < x - 1 / 2 + 1"
    by linarith+
  then have "\<bar>of_int \<lceil>x - 1 / 2\<rceil> - x\<bar> \<le> 1 / 2"
    by linarith
  with False show ?thesis by (simp only: py_round_def if_False)
qed

lemma shares_sum:
  fixes u v w :: real
  assumes "u + v + w \<noteq> 0"
  shows "u * 100 / (u + v + w) + v * 100 / (u + v + w) + w * 100 / (u + v + w) = 100"
proof -
  have "u * 100 / (u + v + w) + v * 100 / (u + v + w) + w * 100 / (u + v + w)
        = (u + v + w) * 100 / (u + v + w)"
    by (simp only: add_divide_distrib distrib_right)
  also have "\<dots> = 100" using assms by (rule nonzero_mult_div_cancel_left)
  finally show ?thesis .
qed

lemma rounded_sum:
  fixes x y z :: real
  assumes "x + y + z = 100"
  shows "\<bar>py_round x + py_round y + py_round z - 100\<bar> \<le> 1"
proof -
  have "\<bar>of_int (py_round x) - x\<bar> \<le> 1 / 2" "\<bar>of_int (py_round y) - y\<bar> \<le> 1 / 2"
       "\<bar>of_int (py_round z) - z\<bar> \<le> 1 / 2"
    by (rule py_round_near)+
  with assms have "\<bar>of_int (py_round x) + of_int (py_round y) + of_int (py_round z) - (100::real)\<bar> < 2"
    by linarith
  then have "\<bar>(of_int (py_round x + py_round y + py_round z - 100) :: real)\<bar> < of_int 2"
    by simp
  then have "\<bar>py_round x + py_round y + py_round z - 100\<bar> < 2"
    by (simp only: of_int_abs [symmetric] of_int_less_iff)
  then show ?thesis by linarith
qed

lemma proportion_sum:
  assumes "proportion t = Inr ps"
  shows "length ps = 3 \<and> \<bar>sum_list (map snd ps) - 100\<bar> \<le> 1"
proof -
  let ?total = "dataloader t + model t + statistics t"
  have nz: "?total \<noteq> 0"
    using assms by (auto simp: proportion_def Let_def split: if_splits)
  have ps: "ps = [(''dataloader'', py_round (dataloader t * 100 / ?total)),
                   (''model'', py_round (model t * 100 / ?total)),
                   (''statistics'', py_round (statistics t * 100 / ?total))]"
    using assms nz by (simp add: proportion_def Let_def)
  show ?thesis
    using rounded_sum [OF shares_sum [OF nz]] by (simp add: ps)
qed

lemma split_time_mono:
  assumes "mono clock" "ticking clock s"
  shows "0 \<le> fst (split_time clock s) \<and> ticking clock (snd (split_time clock s))"
proof -
  obtain j where "j < ticks s" "cur_time s = clock j"
    using assms(2) by (auto simp: ticking_def)
  then have "cur_time s \<le> clock (ticks s)"
    using assms(1) by (simp add: monoD)
  then show ?thesis
    by (auto simp: split_time_def record_time_def Let_def ticking_def)
qed

lemma train_batches_grow:
  assumes "mono clock"
  shows "ticking clock s \<Longrightarrow> train_batches clock a n (s, t) = Inr (s', t') \<Longrightarrow>
         dataloader t \<le> dataloader t' \<and> model t \<le> model t' \<and> statistics t \<le> statistics t'"
proof (induction n arbitrary: s t)
  case 0
  then show ?case by simp
next
  case (Suc n)
  obtain d1 s1 where r1: "split_time clock s = (d1, s1)" by (cases "split_time clock s")
  obtain d2 s2 where r2: "split_time clock s1 = (d2, s2)" by (cases "split_time clock s1")
  obtain d3 s3 where r3: "split_time clock s2 = (d3, s3)" by (cases "split_time clock s2")
  have p1: "0 \<le> d1" "ticking clock s1"
    using split_time_mono [OF assms Suc.prems(1)] r1 by simp_all
  have p2: "0 \<le> d2" "ticking clock s2"
    using split_time_mono [OF assms p1(2)] r2 by simp_all
  have p3: "0 \<le> d3" "ticking clock s3"
    using split_time_mono [OF assms p2(2)] r3 by simp_all
  let ?t3 = "t\<lparr>dataloader := dataloader t + d1, model := model t + d2, statistics := statistics t + d3\<rparr>"
  have nz: "log_interval a \<noteq> 0"
    using Suc.prems(2) by (auto simp: r1 r2 Let_def split: if_splits)
  have "train_batches clock a n (s3, ?t3) = Inr (s', t')"
    using Suc.prems(2) nz by (simp add: r1 r2 r3 Let_def)
  from Suc.IH [OF p3(2) this] p1(1) p2(1) p3(1) show ?case by simp
qed

lemma train_batches_runs:
  "log_interval a \<noteq> 0 \<or> n = 0 \<Longrightarrow> \<exists>st'. train_batches clock a n st = Inr st'"
  by (induction n arbitrary: st) (auto simp: Let_def split: prod.split)

text \<open>
  C8 (as amended). For two successive readings of the clock, the first taken by
  \<^verbatim>\<open>record_time\<close> and the second by \<^verbatim>\<open>split_time\<close>, the duration returned is the
  second reading minus the first, whatever its sign: nothing clamps it, so it is negative
  when the clock has gone backwards. That difference is what the batch loop adds to the
  bucket, on top of the seed.
\<close>

theorem split_time_unclamped:
  "fst (split_time clock (snd (record_time clock s))) = clock (Suc (ticks s)) - clock (ticks s)
   \<and> (log_interval a \<noteq> 0 \<longrightarrow>
        (\<exists>t. train_timer clock a 1 s = Inr t
           \<and> dataloader t = 1 / 1000 + (clock (Suc (ticks s)) - clock (ticks s))))"
  by (simp add: split_time_def record_time_def train_timer_def Let_def)

theorem split_time_unclamped_witness:
  "log_interval default_arg \<noteq> 0
   \<and> (\<exists>t. train_timer real default_arg 1 \<lparr>cur_time = 0, ticks = 0\<rparr> = Inr t \<and> dataloader t = 1 / 1000 + 1)"
  using split_time_unclamped [of real "\<lparr>cur_time = 0, ticks = 0\<rparr>" default_arg]
  by (simp add: default_arg_def)

text \<open>
  The clock reads \<open>5\<close> and then \<open>3\<close>: the split is \<open>- 2\<close>, not \<open>0\<close>, and the data-loading
  bucket of a one-batch epoch ends below zero.
\<close>

theorem split_time_backward_clock_counterexample:
  "(if Suc 0 = 0 then 5 else (3::real)) \<le> (if (0::nat) = 0 then 5 else 3)
   \<and> fst (split_time (\<lambda>n. if n = 0 then 5 else 3)
            (snd (record_time (\<lambda>n. if n = 0 then 5 else 3) \<lparr>cur_time = 0, ticks = 0\<rparr>))) = - 2
   \<and> train_timer (\<lambda>n. if n = 0 then 5 else 3) default_arg 1 \<lparr>cur_time = 0, ticks = 0\<rparr>
       = Inr \<lparr>dataloader = 1 / 1000 - 2, model = 1 / 1000, statistics = 1 / 1000\<rparr>"
  by (simp add: split_time_def record_time_def train_timer_def Let_def default_arg_def)

lemma train_timer_seeded:
  assumes "mono clock" "train_timer clock a n s = Inr t"
  shows "1 / 1000 \<le> dataloader t \<and> 1 / 1000 \<le> model t \<and> 1 / 1000 \<le> statistics t"
proof -
  let ?s = "snd (record_time clock s)"
  let ?t = "\<lparr>dataloader = 1 / 1000, model = 1 / 1000, statistics = 1 / 1000\<rparr>"
  have tk: "ticking clock ?s"
    by (auto simp: ticking_def record_time_def)
  obtain s' where "train_batches clock a n (?s, ?t) = Inr (s', t)"
    using assms(2) by (auto simp: train_timer_def Let_def split: sum.splits)
  from train_batches_grow [OF assms(1) tk this] show ?thesis by simp
qed

text \<open>
  C9. The percentages that a training epoch computes for its three buckets, each rounded
  to the nearest integer, sum to \<open>100\<close> up to the number of buckets. They are computed
  whenever the clock does not run backwards and the batch loop does not raise; over an
  empty dataset every bucket holds its seed and gets \<open>33\<close>.
\<close>

theorem train_proportion_sum:
  "(\<forall>ps. train_proportion clock a n s = Inr ps \<longrightarrow>
         length ps = 3 \<and> \<bar>sum_list (map snd ps) - 100\<bar> \<le> int (length ps))
   \<and> (mono clock \<and> (log_interval a \<noteq> 0 \<or> n = 0) \<longrightarrow>
        (\<exists>ps. train_proportion clock a n s = Inr ps))
   \<and> train_proportion clock a 0 s
       = Inr [(''dataloader'', 33), (''model'', 33), (''statistics'', 33)]"
proof -
  have "length ps = 3 \<and> \<bar>sum_list (map snd ps) - 100\<bar> \<le> int (length ps)"
    if run: "train_proportion clock a n s = Inr ps" for ps
  proof -
    obtain t where "proportion t = Inr ps"
      by (cases "train_timer clock a n s") (use run in \<open>simp_all add: train_proportion_def\<close>)
    from proportion_sum [OF this] show ?thesis by simp
  qed
  moreover have "\<exists>ps. train_proportion clock a n s = Inr ps"
    if h: "mono clock \<and> (log_interval a \<noteq> 0 \<or> n = 0)"
  proof -
    obtain st where "train_batches clock a n (snd (record_time clock s),
        \<lparr>dataloader = 1 / 1000, model = 1 / 1000, statistics = 1 / 1000\<rparr>) = Inr st"
      using train_batches_runs h by blast
    then have tt: "train_timer clock a n s = Inr (snd st)"
      by (simp add: train_timer_def Let_def)
    from train_timer_seeded [OF _ this] h
    have "dataloader (snd st) + model (snd st) + statistics (snd st) \<noteq> 0"
      by simp
    then show ?thesis
      by (simp add: train_proportion_def tt proportion_def Let_def)
  qed
  moreover have "train_proportion clock a 0 s
       = Inr [(''dataloader'', 33), (''model'', 33), (''statistics'', 33)]"
    by (simp add: train_proportion_def train_timer_def proportion_def py_round_def Let_def)
  ultimately show ?thesis by blast
qed

theorem train_proportion_sum_witness:
  "mono (real :: nat \<Rightarrow> real) \<and> log_interval default_arg \<noteq> 0
   \<and> (\<exists>ps. train_proportion real default_arg 2 \<lparr>cur_time = 0, ticks = 0\<rparr> = Inr ps
         \<and> \<bar>sum_list (map snd ps) - 100\<bar> \<le> int (length ps))"
proof -
  have m: "mono (real :: nat \<Rightarrow> real)" by (simp add: mono_def)
  have l: "log_interval default_arg \<noteq> 0" by (simp add: default_arg_def)
  from train_proportion_sum [of real default_arg 2 "\<lparr>cur_time = 0, ticks = 0\<rparr>"] m l
  show ?thesis by blast
qed

text \<open>
  A clock that steps back by exactly the three seeds leaves a zero total, and the
  division raises before anything is reported.
\<close>

lemma train_proportion_zero_total:
  "train_proportion (\<lambda>n. if n = 0 then 3 / 1000 else 0) default_arg 1 \<lparr>cur_time = 0, ticks = 0\<rparr>
     = Inl ZeroDivisionError"
  by (simp add: train_proportion_def train_timer_def proportion_def split_time_def record_time_def
      Let_def default_arg_def)

subsection \<open>Saving a checkpoint\<close>

lemma run_writes:
  "fs p = Some old \<Longrightarrow> run_ops (map (Write p) cs) fs = fs(p \<mapsto> old @ cs)"
proof (induction cs arbitrary: fs old)
  case Nil
  then show ?case by (auto simp: run_ops_def)
next
  case (Cons c cs)
  have "run_ops (map (Write p) (c # cs)) fs = run_ops (map (Write p) cs) (fs(p \<mapsto> old @ [c]))"
    using Cons.prems by (simp add: run_ops_def)
  also have "\<dots> = (fs(p \<mapsto> old @ [c]))(p \<mapsto> (old @ [c]) @ cs)"
    by (rule Cons.IH) simp
  finally show ?case by simp
qed

lemma run_open_writes:
  "run_ops (Open_w p # map (Write p) cs) fs = fs(p \<mapsto> cs)"
proof -
  have "run_ops (Open_w p # map (Write p) cs) fs = run_ops (map (Write p) cs) (fs(p \<mapsto> []))"
    by (simp add: run_ops_def)
  also have "\<dots> = (fs(p \<mapsto> []))(p \<mapsto> [] @ cs)"
    by (rule run_writes) simp
  finally show ?thesis by simp
qed

lemma run_ops_close: "run_ops (ops @ [Close p]) fs = run_ops ops fs"
  by (simp add: run_ops_def)

text \<open>
  C6 (as amended). The checkpoint is written into the target path itself: every file
  operation of the save opens, writes or closes that path, none renames. A save that
  runs to its end leaves the whole snapshot at the path and no other file changed; a save
  that stops after the file was opened and \<open>k\<close> chunks were written leaves those \<open>k\<close>
  chunks there, in place of what the path held before.
\<close>

theorem save_model_direct:
  "(\<forall>op \<in> set (save_model_ops a e chunks).
       op = Open_w (model_path a e) \<or> op = Close (model_path a e)
       \<or> (\<exists>c. op = Write (model_path a e) c))
   \<and> run_ops (save_model_ops a e chunks) fs = fs(model_path a e \<mapsto> chunks)
   \<and> (\<forall>k \<le> length chunks.
         run_ops (take (Suc k) (save_model_ops a e chunks)) fs = fs(model_path a e \<mapsto> take k chunks))"
proof -
  let ?p = "model_path a e"
  have "\<forall>op \<in> set (save_model_ops a e chunks).
       op = Open_w ?p \<or> op = Close ?p \<or> (\<exists>c. op = Write ?p c)"
    by (auto simp: save_model_ops_def)
  moreover have "run_ops (save_model_ops a e chunks) fs = fs(?p \<mapsto> chunks)"
    using run_ops_close [of "Open_w ?p # map (Write ?p) chunks" ?p fs]
    by (simp add: save_model_ops_def run_open_writes)
  moreover have "run_ops (take (Suc k) (save_model_ops a e chunks)) fs = fs(?p \<mapsto> take k chunks)"
    if "k \<le> length chunks" for k
  proof -
    have "take (Suc k) (save_model_ops a e chunks) = Open_w ?p # map (Write ?p) (take k chunks)"
      using that by (simp add: save_model_ops_def take_map)
    then show ?thesis by (simp only: run_open_writes)
  qed
  ultimately show ?thesis by blast
qed

theorem save_model_direct_witness:
  "(1::nat) \<le> length [10, 20 :: nat]
   \<and> run_ops (save_model_ops default_arg 0 [10, 20 :: nat]) Map.empty (Model_pkl ''work'' 1) = Some [10, 20]
   \<and> run_ops (take (Suc 1) (save_model_ops default_arg 0 [10, 20 :: nat])) Map.empty (Model_pkl ''work'' 1)
       = Some [10]"
  using save_model_direct [of default_arg 0 "[10, 20 :: nat]" Map.empty]
  by (simp add: model_path_def default_arg_def)

text \<open>
  A save that is interrupted after its first chunk: the target path held an earlier
  checkpoint and now holds a file that is neither that one nor the new one.
\<close>

theorem save_model_interrupted_counterexample:
  "run_ops (take 2 (save_model_ops default_arg 0 [10, 20 :: nat]))
       (Map.empty(Model_pkl ''work'' 1 \<mapsto> [7])) (Model_pkl ''work'' 1) = Some [10]
   \<and> [10] \<noteq> [7 :: nat] \<and> [10] \<noteq> [10, 20 :: nat]
   \<and> Rename (Model_pkl ''work'' 1) (Model_pkl ''work'' 1) \<notin> set (save_model_ops default_arg 0 [10, 20 :: nat])"
  by (simp add: save_model_ops_def model_path_def default_arg_def run_ops_def)

subsection \<open>Parameter mappings\<close>

lemma dict_keys_Nil: "dict_keys [] = []"
  by (simp add: dict_keys_def)

lemma map_of_dict_set: "map_of (dict_set k v d) = (map_of d)(k \<mapsto> v)"
  by (induction d) (auto simp: fun_eq_iff)

lemma keys_dict_set: "set (dict_keys (dict_set k v d)) = insert k (set (dict_keys d))"
  by (induction d) (auto simp: dict_keys_def)

lemma distinct_dict_set: "distinct (dict_keys d) \<Longrightarrow> distinct (dict_keys (dict_set k v d))"
proof (induction d)
  case Nil
  then show ?case by (simp add: dict_keys_def)
next
  case (Cons p d)
  then have "distinct (dict_keys (dict_set k v d))" by (simp add: dict_keys_def)
  moreover have "fst p \<notin> set (dict_keys (dict_set k v d))" if "fst p \<noteq> k"
    using Cons.prems that by (simp add: keys_dict_set) (simp add: dict_keys_def)
  ultimately show ?case using Cons.prems by (auto simp: dict_keys_def)
qed

lemma dict_fold:
  "map_of (fold (\<lambda>kv acc. dict_set (fst kv) (snd kv) acc) ps acc) k
     = (case map_of (rev ps) k of Some v \<Rightarrow> Some v | None \<Rightarrow> map_of acc k)"
  by (induction ps arbitrary: acc) (auto simp: map_of_dict_set map_add_def split: option.splits)

lemma dict_fold_keys:
  "set (dict_keys (fold (\<lambda>kv acc. dict_set (fst kv) (snd kv) acc) ps acc))
     = set (map fst ps) \<union> set (dict_keys acc)"
  by (induction ps arbitrary: acc) (auto simp: keys_dict_set)

lemma dict_fold_distinct:
  "distinct (dict_keys acc) \<Longrightarrow>
   distinct (dict_keys (fold (\<lambda>kv acc. dict_set (fst kv) (snd kv) acc) ps acc))"
  by (induction ps arbitrary: acc) (auto simp: distinct_dict_set)

lemma map_of_dict: "map_of (dict ps) = map_of (rev ps)"
  by (auto simp: dict_def dict_fold fun_eq_iff split: option.splits)

lemma keys_dict: "set (dict_keys (dict ps)) = set (map fst ps)"
  by (simp add: dict_def dict_fold_keys dict_keys_Nil)

lemma distinct_dict: "distinct (dict_keys (dict ps))"
  by (simp add: dict_def dict_fold_distinct dict_keys_Nil)

lemma length_dict: "length (dict ps) = card (set (map fst ps))"
proof -
  have "length (dict ps) = length (dict_keys (dict ps))" by (simp add: dict_keys_def)
  also have "\<dots> = card (set (dict_keys (dict ps)))"
    using distinct_dict [of ps] by (simp add: distinct_card)
  finally show ?thesis by (simp only: keys_dict)
qed

lemma map_of_rev_distinct: "distinct (map fst ps) \<Longrightarrow> map_of (rev ps) = map_of ps"
proof (induction ps)
  case Nil
  then show ?case by simp
next
  case (Cons p ps)
  then have ih: "map_of (rev ps) = map_of ps" and fresh: "map_of ps (fst p) = None"
    by (simp_all add: map_of_eq_None_iff)
  show ?case
  proof
    fix k
    show "map_of (rev (p # ps)) k = map_of (p # ps) k"
      using fresh by (cases "k = fst p") (simp_all add: ih map_add_def split: option.splits)
  qed
qed

subsection \<open>Score record\<close>

lemma map_of_zip_position:
  assumes "distinct xs" "i < min (length xs) (length ys)"
  shows "map_of (zip xs ys) (xs ! i) = Some (ys ! i)"
proof -
  let ?n = "min (length xs) (length ys)"
  have z: "zip xs ys = zip (take ?n xs) (take ?n ys)"
    using take_zip [of ?n xs ys] by simp
  have "map_of (zip (take ?n xs) (take ?n ys)) (take ?n xs ! i) = Some (take ?n ys ! i)"
    using assms by (intro map_of_zip_nth) simp_all
  then show ?thesis
    using assms(2) by (simp add: z [symmetric])
qed

text \<open>
  C10. An evaluation pass that scored at least one batch produces its score record, and
  the record is the positional pairing of the sample names with the concatenated score
  rows, cut at the shorter of the two: its names are the first names, as many as there
  are rows; every entry pairs a name with the row at the same position; it never has more
  than \<open>min\<close> of the two lengths entries, and with distinct names it has exactly that many,
  one for each position. Names or rows beyond that length are dropped and no error is
  returned for them.
\<close>

theorem score_dict_pairs:
  "(score_frag \<noteq> [] \<longrightarrow> (\<exists>d. score_dict names score_frag = Inr d))
   \<and> (\<forall>d. score_dict names score_frag = Inr d \<longrightarrow>
          set (dict_keys d) = set (take (length (concat score_frag)) names)
        \<and> length d \<le> min (length names) (length (concat score_frag))
        \<and> (\<forall>k v. map_of d k = Some v \<longrightarrow>
              (\<exists>i < min (length names) (length (concat score_frag)).
                  k = names ! i \<and> v = concat score_frag ! i))
        \<and> (distinct names \<longrightarrow>
              length d = min (length names) (length (concat score_frag))
            \<and> (\<forall>i < min (length names) (length (concat score_frag)).
                  map_of d (names ! i) = Some (concat score_frag ! i))))"
proof -
  let ?score = "concat score_frag"
  let ?n = "min (length names) (length ?score)"
  have total: "\<exists>d. score_dict names score_frag = Inr d" if "score_frag \<noteq> []"
    using that by (simp add: score_dict_def concatenate_def)
  have shape: "d = dict (zip names ?score)" if "score_dict names score_frag = Inr d" for d
    using that by (auto simp: score_dict_def concatenate_def split: if_splits)
  have fsts: "map fst (zip names ?score) = take ?n names"
    by (simp add: map_fst_zip_take)
  have keys: "set (dict_keys (dict (zip names ?score))) = set (take (length ?score) names)"
    by (simp add: keys_dict fsts del: set_map) (metis min.commute take_all_iff min_def nle_le)
  have len: "length (dict (zip names ?score)) \<le> ?n"
    using card_length [of "take ?n names"] by (simp add: length_dict fsts del: set_map)
  have entries: "\<exists>i < ?n. k = names ! i \<and> v = ?score ! i"
    if "map_of (dict (zip names ?score)) k = Some v" for k v
  proof -
    have "(k, v) \<in> set (zip names ?score)"
      using map_of_SomeD [of "rev (zip names ?score)" k v] that by (simp add: map_of_dict)
    then show ?thesis by (auto simp: set_zip)
  qed
  have exact: "length (dict (zip names ?score)) = ?n
      \<and> (\<forall>i < ?n. map_of (dict (zip names ?score)) (names ! i) = Some (?score ! i))"
    if dn: "distinct names"
  proof -
    have d: "distinct (map fst (zip names ?score))"
      using dn by (simp add: fsts)
    have "length (dict (zip names ?score)) = ?n"
      using distinct_card [OF d] by (simp add: length_dict fsts del: set_map)
    moreover have "\<forall>i < ?n. map_of (dict (zip names ?score)) (names ! i) = Some (?score ! i)"
      by (simp only: map_of_dict map_of_rev_distinct [OF d]) (blast intro: map_of_zip_position [OF dn])
    ultimately show ?thesis by blast
  qed
  show ?thesis
    using total shape keys len entries exact by (intro conjI impI allI) blast+
qed

theorem score_dict_pairs_witness:
  "[[1], [2 :: nat]] \<noteq> [] \<and> distinct [''a'', ''b'', ''c'']
   \<and> score_dict [''a'', ''b'', ''c''] [[1], [2 :: nat]] = Inr [(''a'', 1), (''b'', 2)]
   \<and> length [(''a'', 1 :: nat), (''b'', 2)] = min (length [''a'', ''b'', ''c'']) (length (concat [[1], [2 :: nat]]))"
  using score_dict_pairs [of "[[1], [2 :: nat]]" "[''a'', ''b'', ''c'']"]
  by (simp add: score_dict_def concatenate_def dict_def)

subsection \<open>Loading weights\<close>

lemma map_of_dict_pop:
  "map_of (snd (dict_pop w d)) k = (if k = w then None else map_of d k)"
  by (induction d) (auto simp: dict_pop_def)

lemma dict_pop_found: "fst (dict_pop w d) \<noteq> None \<longleftrightarrow> w \<in> set (dict_keys d)"
  by (simp add: dict_pop_def dict_keys_def map_of_eq_None_iff)

lemma keys_dict_pop: "set (dict_keys (snd (dict_pop w d))) = set (dict_keys d) - {w}"
  by (auto simp: dict_pop_def dict_keys_def)

lemma remove_weights_Cons:
  "remove_weights (w # ws) d =
     (fst (remove_weights ws (snd (dict_pop w d))),
      (if w \<in> set (dict_keys d) then ''Sucessfully Remove Weights: '' @ w @ ''.''
       else ''Can Not Remove Weights: '' @ w @ ''.'') # snd (remove_weights ws (snd (dict_pop w d))))"
  using dict_pop_found [of w d]
  by (cases "dict_pop w d") (simp add: Let_def split: prod.split)

lemma map_of_remove_weights:
  "map_of (fst (remove_weights ws d)) k = (if k \<in> set ws then None else map_of d k)"
  by (induction ws arbitrary: d) (simp_all add: remove_weights_Cons map_of_dict_pop del: remove_weights.simps(2))

lemma keys_remove_weights:
  "set (dict_keys (fst (remove_weights ws d))) = set (dict_keys d) - set ws"
  by (induction ws arbitrary: d) (auto simp add: remove_weights_Cons keys_dict_pop simp del: remove_weights.simps(2))

lemma length_remove_weights: "length (snd (remove_weights ws d)) = length ws"
  by (induction ws arbitrary: d) (simp_all add: remove_weights_Cons del: remove_weights.simps(2))

lemma nth_remove_weights:
  "i < length ws \<Longrightarrow>
   snd (remove_weights ws d) ! i =
     (if ws ! i \<in> set (dict_keys d) \<and> ws ! i \<notin> set (take i ws)
      then ''Sucessfully Remove Weights: '' @ ws ! i @ ''.''
      else ''Can Not Remove Weights: '' @ ws ! i @ ''.'')"
proof (induction ws arbitrary: d i)
  case Nil
  then show ?case by simp
next
  case (Cons w ws)
  show ?case
  proof (cases i)
    case 0
    then show ?thesis by (simp add: remove_weights_Cons del: remove_weights.simps(2))
  next
    case (Suc j)
    then have "j < length ws" using Cons.prems by simp
    from Cons.IH [OF this, of "snd (dict_pop w d)"] show ?thesis
      by (auto simp add: Suc remove_weights_Cons keys_dict_pop simp del: remove_weights.simps(2))
  qed
qed

lemma remove_weights_lines:
  "l \<in> set (snd (remove_weights ws d)) \<Longrightarrow> hd l \<noteq> CHR '' ''"
  by (induction ws arbitrary: d)
    (auto simp add: remove_weights_Cons simp del: remove_weights.simps(2) split: if_splits)

lemma key_iff: "k \<in> set (dict_keys d) \<longleftrightarrow> map_of d k \<noteq> None"
  by (simp add: dict_keys_def map_of_eq_None_iff)

lemma map_of_overlay:
  "map_of (map (\<lambda>kv. (fst kv, g (fst kv) (snd kv))) d) k = map_option (g k) (map_of d k)"
  by (induction d) auto

lemma keys_overlay: "dict_keys (map (\<lambda>kv. (fst kv, g kv)) d) = dict_keys d"
  by (simp add: dict_keys_def comp_def)

lemma load_state_dict_accepts:
  assumes "set (dict_keys own) \<subseteq> set (dict_keys sd)"
  shows "\<exists>own'. load_state_dict sd own = Inr own' \<and> dict_keys own' = dict_keys own
           \<and> (\<forall>k. map_of own' k = (if k \<in> set (dict_keys own) then map_of sd k else None))"
proof -
  let ?own' = "map (\<lambda>kv. (fst kv, case map_of sd (fst kv) of Some v \<Rightarrow> v | None \<Rightarrow> snd kv)) own"
  have run: "load_state_dict sd own = Inr ?own'"
    using assms by (auto simp: load_state_dict_def)
  have look: "map_of ?own' k = (if k \<in> set (dict_keys own) then map_of sd k else None)" for k
  proof (cases "map_of own k")
    case None
    then show ?thesis
      by (simp add: map_of_overlay [of "\<lambda>k v. case map_of sd k of Some v' \<Rightarrow> v' | None \<Rightarrow> v"] key_iff)
  next
    case (Some v)
    then have mem: "k \<in> set (dict_keys own)"
      by (simp add: key_iff)
    then have "k \<in> set (dict_keys sd)"
      using assms by blast
    then obtain v' where "map_of sd k = Some v'"
      by (auto simp: key_iff)
    with mem show ?thesis
      using Some by (simp add: map_of_overlay [of "\<lambda>k v. case map_of sd k of Some v' \<Rightarrow> v' | None \<Rightarrow> v"])
  qed
  have keys: "dict_keys ?own' = dict_keys own"
    by (rule keys_overlay)
  show ?thesis
    using run look keys by blast
qed

lemma load_state_dict_rejects:
  "\<not> set (dict_keys own) \<subseteq> set (dict_keys sd) \<Longrightarrow> load_state_dict sd own = Inl KeyError"
  by (auto simp: load_state_dict_def)

lemma dict_update_fold:
  "map_of (fold (\<lambda>k acc. case map_of other k of Some v \<Rightarrow> dict_set k v acc | None \<Rightarrow> acc) ks d) k
     = (if k \<in> set ks \<and> map_of other k \<noteq> None then map_of other k else map_of d k)"
  by (induction ks arbitrary: d) (auto simp: map_of_dict_set split: option.splits)

lemma dict_update_fold_keys:
  "set (dict_keys (fold (\<lambda>k acc. case map_of other k of Some v \<Rightarrow> dict_set k v acc | None \<Rightarrow> acc) ks d))
     = set (dict_keys d) \<union> {k \<in> set ks. map_of other k \<noteq> None}"
  by (induction ks arbitrary: d) (auto simp: keys_dict_set split: option.splits)

lemma map_of_dict_update:
  "map_of (dict_update d other) k = (case map_of other k of Some v \<Rightarrow> Some v | None \<Rightarrow> map_of d k)"
  using key_iff [of k other] by (auto simp: dict_update_def dict_update_fold split: option.splits)

lemma keys_dict_update:
  "set (dict_keys (dict_update d other)) = set (dict_keys d) \<union> set (dict_keys other)"
  by (auto simp: dict_update_def dict_update_fold_keys key_iff)

lemma load_model_unfold:
  "load_model lsd a path loaded own =
     (case lsd (fst (remove_weights (ignore_weights a) loaded)) own of
        Inr own' \<Rightarrow>
          ((''Load weights from '' @ path @ ''.'') # snd (remove_weights (ignore_weights a) loaded),
           Inr own')
      | Inl e \<Rightarrow>
          (((''Load weights from '' @ path @ ''.'') # snd (remove_weights (ignore_weights a) loaded))
             @ ''Can not find these weights:''
             # map (\<lambda>d. ''  '' @ d)
                 (remdups (filter (\<lambda>k. k \<notin> set (dict_keys (fst (remove_weights (ignore_weights a) loaded))))
                    (dict_keys own))),
           lsd (dict_update own (fst (remove_weights (ignore_weights a) loaded))) own))"
  by (cases "remove_weights (ignore_weights a) loaded")
    (simp add: load_model_def Let_def split: sum.split)

lemma load_model_result:
  "\<exists>own'. snd (load_model load_state_dict a path loaded own) = Inr own'
     \<and> dict_keys own' = dict_keys own
     \<and> (\<forall>k. map_of own' k =
           (if k \<in> set (dict_keys own)
            then (case map_of (fst (remove_weights (ignore_weights a) loaded)) k of
                    Some v \<Rightarrow> Some v | None \<Rightarrow> map_of own k)
            else None))"
proof (cases "set (dict_keys own) \<subseteq> set (dict_keys (fst (remove_weights (ignore_weights a) loaded)))")
  case True
  let ?W = "fst (remove_weights (ignore_weights a) loaded)"
  obtain own' where o: "load_state_dict ?W own = Inr own'" "dict_keys own' = dict_keys own"
      "\<forall>k. map_of own' k = (if k \<in> set (dict_keys own) then map_of ?W k else None)"
    using load_state_dict_accepts [OF True] by blast
  have "map_of ?W k \<noteq> None" if "k \<in> set (dict_keys own)" for k
  proof -
    from that True have "k \<in> set (dict_keys ?W)" by blast
    then show ?thesis by (simp add: key_iff)
  qed
  then have "\<forall>k. map_of own' k =
           (if k \<in> set (dict_keys own)
            then (case map_of ?W k of Some v \<Rightarrow> Some v | None \<Rightarrow> map_of own k)
            else None)"
    using o(3) by (fastforce split: option.splits)
  then show ?thesis
    using o(1,2) by (simp add: load_model_unfold)
next
  case False
  let ?W = "fst (remove_weights (ignore_weights a) loaded)"
  have cover: "set (dict_keys own) \<subseteq> set (dict_keys (dict_update own ?W))"
    by (simp add: keys_dict_update)
  obtain own' where o: "load_state_dict (dict_update own ?W) own = Inr own'"
      "dict_keys own' = dict_keys own"
      "\<forall>k. map_of own' k = (if k \<in> set (dict_keys own) then map_of (dict_update own ?W) k else None)"
    using load_state_dict_accepts [OF cover] by blast
  show ?thesis
    using o by (simp add: load_model_unfold load_state_dict_rejects [OF False] map_of_dict_update)
qed

lemma count_indented:
  "count_list (map (\<lambda>d. CHR '' '' # CHR '' '' # d) xs) (CHR '' '' # CHR '' '' # k) = count_list xs k"
  by (induction xs) simp_all

lemma count_removal_lines:
  "count_list (snd (remove_weights ws d)) (CHR '' '' # CHR '' '' # k) = 0"
  using remove_weights_lines [of "CHR '' '' # CHR '' '' # k" ws d] by (auto simp: count_list_0_iff)

lemma load_model_warning:
  assumes "K \<in> set (dict_keys own)"
    and "K \<notin> set (dict_keys (fst (remove_weights (ignore_weights a) loaded)))"
  shows "count_list (fst (load_model load_state_dict a path loaded own)) (''  '' @ K) = 1"
proof -
  let ?W = "fst (remove_weights (ignore_weights a) loaded)"
  let ?diff = "remdups (filter (\<lambda>k. k \<notin> set (dict_keys ?W)) (dict_keys own))"
  have "\<not> set (dict_keys own) \<subseteq> set (dict_keys ?W)"
    using assms by blast
  then have "fst (load_model load_state_dict a path loaded own) =
      ((''Load weights from '' @ path @ ''.'') # snd (remove_weights (ignore_weights a) loaded))
        @ ''Can not find these weights:'' # map (\<lambda>d. ''  '' @ d) ?diff"
    by (simp add: load_model_unfold load_state_dict_rejects)
  moreover have "count_list ?diff K = 1"
    using assms by (intro count_distinct) simp_all
  ultimately show ?thesis
    by (simp add: count_indented count_removal_lines)
qed

text \<open>
  C5. After the removal loop no name of the exclusion list is left in the weights,
  whether the snapshot had it or not, and every other name keeps its value. The loop
  prints one line for each entry of the list, in order, and never raises: the line says
  that the name was removed exactly when the snapshot had it at that moment, that is when
  the loaded snapshot has it and the list has not named it before. Whatever the model
  layer does, it is handed the weights that are left: loading with the list equals
  loading the reduced weights with an empty list.
\<close>

theorem remove_weights_exclusion:
  "(\<forall>K \<in> set (ignore_weights a).
        K \<notin> set (dict_keys (fst (remove_weights (ignore_weights a) loaded))))
   \<and> (\<forall>k. k \<notin> set (ignore_weights a) \<longrightarrow>
          map_of (fst (remove_weights (ignore_weights a) loaded)) k = map_of loaded k)
   \<and> length (snd (remove_weights (ignore_weights a) loaded)) = length (ignore_weights a)
   \<and> (\<forall>i < length (ignore_weights a).
          snd (remove_weights (ignore_weights a) loaded) ! i =
            (if ignore_weights a ! i \<in> set (dict_keys loaded)
                \<and> ignore_weights a ! i \<notin> set (take i (ignore_weights a))
             then ''Sucessfully Remove Weights: '' @ ignore_weights a ! i @ ''.''
             else ''Can Not Remove Weights: '' @ ignore_weights a ! i @ ''.''))
   \<and> snd (load_model lsd a path loaded own)
       = snd (load_model lsd (a\<lparr>ignore_weights := []\<rparr>) path
                (fst (remove_weights (ignore_weights a) loaded)) own)"
proof -
  have "snd (load_model lsd a path loaded own)
       = snd (load_model lsd (a\<lparr>ignore_weights := []\<rparr>) path
                (fst (remove_weights (ignore_weights a) loaded)) own)"
    by (simp add: load_model_unfold split: sum.split)
  then show ?thesis
    by (simp add: keys_remove_weights map_of_remove_weights length_remove_weights
        nth_remove_weights)
qed

theorem remove_weights_exclusion_witness:
  "''gone'' \<in> set (ignore_weights (default_arg\<lparr>ignore_weights := [''fc'', ''gone'']\<rparr>))
   \<and> ''a'' \<notin> set (ignore_weights (default_arg\<lparr>ignore_weights := [''fc'', ''gone'']\<rparr>))
   \<and> (1::nat) < length (ignore_weights (default_arg\<lparr>ignore_weights := [''fc'', ''gone'']\<rparr>))
   \<and> remove_weights (ignore_weights (default_arg\<lparr>ignore_weights := [''fc'', ''gone'']\<rparr>))
         [(''fc'', 1 :: nat), (''a'', 2)]
       = ([(''a'', 2)], [''Sucessfully Remove Weights: fc.'', ''Can Not Remove Weights: gone.''])
   \<and> ''gone'' \<notin> set (dict_keys (fst (remove_weights
         (ignore_weights (default_arg\<lparr>ignore_weights := [''fc'', ''gone'']\<rparr>))
         [(''fc'', 1 :: nat), (''a'', 2)])))"
  using remove_weights_exclusion [of "default_arg\<lparr>ignore_weights := [''fc'', ''gone'']\<rparr>"
      "[(''fc'', 1 :: nat), (''a'', 2)]" load_state_dict "''w''" "[]"]
  by (simp add: default_arg_def dict_pop_def dict_keys_def)

text \<open>
  C3. When the loaded snapshot lacks a name \<open>K\<close> that the model has, loading still ends
  with a model: its value for \<open>K\<close> is the one it had, and the line that names \<open>K\<close> under
  \<^verbatim>\<open>Can not find these weights:\<close> is printed exactly once.
\<close>

theorem load_model_missing_key:
  assumes "K \<in> set (dict_keys own)" "K \<notin> set (dict_keys loaded)"
  shows "\<exists>own'. snd (load_model load_state_dict a path loaded own) = Inr own'
           \<and> map_of own' K = map_of own K
           \<and> count_list (fst (load_model load_state_dict a path loaded own)) (''  '' @ K) = 1"
proof -
  have gone: "K \<notin> set (dict_keys (fst (remove_weights (ignore_weights a) loaded)))"
    using assms(2) by (simp add: keys_remove_weights)
  then have none: "map_of (fst (remove_weights (ignore_weights a) loaded)) K = None"
    by (simp add: key_iff)
  obtain own' where o: "snd (load_model load_state_dict a path loaded own) = Inr own'"
      "\<forall>k. map_of own' k =
           (if k \<in> set (dict_keys own)
            then (case map_of (fst (remove_weights (ignore_weights a) loaded)) k of
                    Some v \<Rightarrow> Some v | None \<Rightarrow> map_of own k)
            else None)"
    using load_model_result [of a path loaded own] by blast
  have "map_of own' K = map_of own K"
    using o(2) assms(1) none by simp
  then show ?thesis
    using o(1) load_model_warning [OF assms(1) gone] by blast
qed

theorem load_model_missing_key_witness:
  "''b'' \<in> set (dict_keys [(''a'', 0 :: nat), (''b'', 0)]) \<and> ''b'' \<notin> set (dict_keys [(''a'', 1 :: nat)])
   \<and> load_model load_state_dict default_arg ''w'' [(''a'', 1 :: nat)] [(''a'', 0), (''b'', 0)]
       = ([''Load weights from w.'', ''Can not find these weights:'', ''  b''],
          Inr [(''a'', 1), (''b'', 0)])
   \<and> count_list (fst (load_model load_state_dict default_arg ''w'' [(''a'', 1 :: nat)]
          [(''a'', 0), (''b'', 0)])) (''  '' @ ''b'') = 1"
  using load_model_missing_key [of "''b''" "[(''a'', 0 :: nat), (''b'', 0)]" "[(''a'', 1 :: nat)]"
      default_arg "''w''"]
  by (simp add: load_model_def load_state_dict_def dict_update_def dict_keys_def default_arg_def)

text \<open>
  C4. When the loaded snapshot has a name \<open>X\<close> that the model does not have, loading
  ends with a model: it has the names it had before, and every name that the model and
  the snapshot share, and that is not excluded, holds the snapshot's value.
\<close>

theorem load_model_extra_key:
  assumes "X \<in> set (dict_keys loaded)" "X \<notin> set (dict_keys own)"
  shows "\<exists>own'. snd (load_model load_state_dict a path loaded own) = Inr own'
           \<and> dict_keys own' = dict_keys own
           \<and> (\<forall>k. k \<in> set (dict_keys own) \<and> k \<in> set (dict_keys loaded)
                    \<and> k \<notin> set (ignore_weights a)
                 \<longrightarrow> map_of own' k = map_of loaded k)"
proof -
  obtain own' where o: "snd (load_model load_state_dict a path loaded own) = Inr own'"
      "dict_keys own' = dict_keys own"
      "\<forall>k. map_of own' k =
           (if k \<in> set (dict_keys own)
            then (case map_of (fst (remove_weights (ignore_weights a) loaded)) k of
                    Some v \<Rightarrow> Some v | None \<Rightarrow> map_of own k)
            else None)"
    using load_model_result [of a path loaded own] by blast
  have "map_of own' k = map_of loaded k"
    if shared: "k \<in> set (dict_keys own) \<and> k \<in> set (dict_keys loaded) \<and> k \<notin> set (ignore_weights a)" for k
  proof -
    obtain v where "map_of loaded k = Some v"
      using shared by (auto simp: key_iff)
    then show ?thesis
      using o(3) shared by (simp add: map_of_remove_weights)
  qed
  then show ?thesis
    using o(1,2) by blast
qed

theorem load_model_extra_key_witness:
  "''x'' \<in> set (dict_keys [(''a'', 1 :: nat), (''x'', 9)]) \<and> ''x'' \<notin> set (dict_keys [(''a'', 0 :: nat), (''b'', 0)])
   \<and> load_model load_state_dict default_arg ''w'' [(''a'', 1 :: nat), (''x'', 9)] [(''a'', 0), (''b'', 0)]
       = ([''Load weights from w.'', ''Can not find these weights:'', ''  b''],
          Inr [(''a'', 1), (''b'', 0)])"
  using load_model_extra_key [of "''x''" "[(''a'', 1 :: nat), (''x'', 9)]" "[(''a'', 0 :: nat), (''b'', 0)]"
      default_arg "''w''"]
  by (simp add: load_model_def load_state_dict_def dict_update_def dict_keys_def default_arg_def)

subsection \<open>The epoch loop\<close>

lemma train_runs:
  assumes "optimizer a = ''SGD'' \<or> optimizer a = ''Adam''" "mono (readings w)"
    and "log_interval a \<noteq> 0 \<or> train_len w = 0"
  shows "\<exists>st'. train w a e sm st =
           (Train_step e # (if sm then [Checkpoint_written (model_path a e)] else []), Inr st')"
proof -
  let ?s = "snd (record_time (readings w) (fst st))"
  let ?t = "\<lparr>dataloader = 1 / 1000, model = 1 / 1000, statistics = 1 / 1000\<rparr>"
  obtain lg where lr: "adjust_learning_rate a e (snd st) = Inr lg"
    using assms(1) by (simp add: adjust_learning_rate_def Let_def)
  obtain st' where run: "train_batches (readings w) a (train_len w) (?s, ?t) = Inr st'"
    using train_batches_runs [OF assms(3)] by blast
  have tk: "ticking (readings w) ?s"
    by (auto simp: ticking_def record_time_def)
  have "train_batches (readings w) a (train_len w) (?s, ?t) = Inr (fst st', snd st')"
    using run by simp
  from train_batches_grow [OF assms(2) tk this]
  have "dataloader (snd st') + model (snd st') + statistics (snd st') \<noteq> 0"
    by simp
  then obtain shares where "proportion (snd st') = Inr shares"
    by (simp add: proportion_def Let_def)
  then show ?thesis
    using lr run by (simp add: train_def Let_def)
qed


lemma eval_test:
  "eval w a e True [''test''] =
     (Eval_pass e ''test'' #
        (if test_len w = 0 then [] else [Score_written (Score_pkl (work_dir a) (e + 1) ''test'')]),
      if test_len w = 0 then Some ValueError else None)"
  by (simp add: data_loader_def score_dict_def concatenate_def)

lemma epochs_step:
  assumes "save_interval a \<noteq> 0" "eval_interval a \<noteq> 0"
    and "train w a e ((e + 1) mod save_interval a = 0 \<or> e + 1 = num_epoch a) st = (trained, r)"
  shows "epochs w a (e # es) st =
     (case r of
        Inl x \<Rightarrow> (trained, Some x)
      | Inr st' \<Rightarrow>
          if (e + 1) mod eval_interval a = 0 \<or> e + 1 = num_epoch a then
            if test_len w = 0 then (trained @ [Eval_pass e ''test''], Some ValueError)
            else (trained @ [Eval_pass e ''test'', Score_written (Score_pkl (work_dir a) (e + 1) ''test'')]
                    @ fst (epochs w a es st'), snd (epochs w a es st'))
          else (trained @ fst (epochs w a es st'), snd (epochs w a es st')))"
  using assms
  by (simp add: Let_def eval_test split: sum.split prod.split del: eval.simps)










text \<open>
  Two more runs that an exception ends early. With a log interval of zero the first batch
  raises inside \<^verbatim>\<open>train\<close>, before the checkpoint that the policy asks for; with a test
  loader that yields no batch the first evaluation raises, and the second epoch is never
  trained.
\<close>

lemma start_zero_log_interval:
  "start steady_world (default_arg\<lparr>log_interval := 0, num_epoch := 1, save_interval := 1\<rparr>)
       (\<lparr>cur_time = 0, ticks = 0\<rparr>, [1 / 100])
     = ([Train_step 0], Some ZeroDivisionError)"
  by (simp add: default_arg_def start_def upto.simps steady_world_def train_def
      adjust_learning_rate_def split_time_def record_time_def Let_def numeral_2_eq_2)

lemma start_empty_test_loader:
  "start (steady_world\<lparr>test_len := 0\<rparr>) (default_arg\<lparr>num_epoch := 2, eval_interval := 1\<rparr>)
       (\<lparr>cur_time = 0, ticks = 0\<rparr>, [1 / 100])
     = ([Train_step 0, Eval_pass 0 ''test''], Some ValueError)"
proof -
  let ?w = "steady_world\<lparr>test_len := 0\<rparr>"
  let ?a = "default_arg\<lparr>num_epoch := 2, eval_interval := 1\<rparr>"
  have "mono (readings ?w)"
    by (simp add: steady_world_def mono_def)
  moreover have "optimizer ?a = ''SGD'' \<or> optimizer ?a = ''Adam''" "log_interval ?a \<noteq> 0 \<or> train_len ?w = 0"
    by (simp_all add: default_arg_def)
  ultimately obtain st' where tr: "train ?w ?a 0 ((0 + 1) mod save_interval ?a = 0 \<or> 0 + 1 = num_epoch ?a)
      (\<lparr>cur_time = 0, ticks = 0\<rparr>, [1 / 100]) = ([Train_step 0], Inr st')"
    using train_runs [of ?a ?w 0 "(0 + 1) mod save_interval ?a = 0 \<or> 0 + 1 = num_epoch ?a"
        "(\<lparr>cur_time = 0, ticks = 0\<rparr>, [1 / 100])"]
    by (auto simp: default_arg_def)
  have si: "save_interval ?a \<noteq> 0" and ei: "eval_interval ?a \<noteq> 0"
    by (simp_all add: default_arg_def)
  have "epochs ?w ?a [0, 1] (\<lparr>cur_time = 0, ticks = 0\<rparr>, [1 / 100])
      = ([Train_step 0, Eval_pass 0 ''test''], Some ValueError)"
    using epochs_step [OF si ei tr, of "[1]"] by (simp add: default_arg_def del: epochs.simps)
  moreover have "[start_epoch ?a .. num_epoch ?a - 1] = [0, 1]"
    by (simp add: default_arg_def upto.simps)
  moreover have "phase ?a = ''train''"
    by (simp add: default_arg_def)
  ultimately show ?thesis
    by (simp add: start_def del: epochs.simps)
qed

text \<open>
  C7 (as amended). In the test phase the run is one evaluation pass over the test loader
  at \<open>start_epoch\<close>: no training step runs and no checkpoint is written. When the test
  loader yields a batch, the score file of that pass is written and the run ends without
  an exception; when it yields none, the pass raises \<^verbatim>\<open>ValueError\<close> and no score file
  is written.
\<close>

theorem start_test_phase:
  assumes "phase a = ''test''"
  shows "start w a st =
           (Eval_pass (start_epoch a) ''test'' #
              (if test_len w = 0 then []
               else [Score_written (Score_pkl (work_dir a) (start_epoch a + 1) ''test'')]),
            if test_len w = 0 then Some ValueError else None)
       \<and> count_list (fst (start w a st)) (Eval_pass (start_epoch a) ''test'') = 1
       \<and> (\<forall>e l. Eval_pass e l \<in> set (fst (start w a st)) \<longrightarrow> e = start_epoch a \<and> l = ''test'')
       \<and> (\<forall>e. Train_step e \<notin> set (fst (start w a st)))
       \<and> (\<forall>p. Checkpoint_written p \<notin> set (fst (start w a st)))"
proof -
  have "start w a st = eval w a (start_epoch a) True [''test'']"
    using assms by (simp add: start_def)
  then show ?thesis
    by (simp add: eval_test del: eval.simps)
qed

theorem start_test_phase_witness:
  "phase (default_arg\<lparr>phase := ''test'', start_epoch := 3\<rparr>) = ''test''
   \<and> start steady_world (default_arg\<lparr>phase := ''test'', start_epoch := 3\<rparr>)
         (\<lparr>cur_time = 0, ticks = 0\<rparr>, [1 / 100])
       = ([Eval_pass 3 ''test'', Score_written (Score_pkl ''work'' 4 ''test'')], None)"
  using start_test_phase [of "default_arg\<lparr>phase := ''test'', start_epoch := 3\<rparr>" steady_world
      "(\<lparr>cur_time = 0, ticks = 0\<rparr>, [1 / 100])"]
  by (simp add: default_arg_def steady_world_def)

text \<open>
  A test loader without a batch: the pass at epoch \<open>3\<close> starts and raises, and nothing is
  persisted.
\<close>

theorem start_test_phase_empty_loader_counterexample:
  "phase (default_arg\<lparr>phase := ''test'', start_epoch := 3\<rparr>) = ''test''
   \<and> start (steady_world\<lparr>test_len := 0\<rparr>) (default_arg\<lparr>phase := ''test'', start_epoch := 3\<rparr>)
         (\<lparr>cur_time = 0, ticks = 0\<rparr>, [1 / 100])
       = ([Eval_pass 3 ''test''], Some ValueError)"
  by (simp add: default_arg_def steady_world_def start_def data_loader_def score_dict_def
      concatenate_def)

end
